theory Spec2Isabelle
  imports Complex_Main "HOL-Library.Multiset"
begin

section \<open>JavaScript values\<close>

text \<open>
  The engine of the Mini Cactpot calculator is plain JavaScript over arrays of numbers
  and \<^verbatim>\<open>null\<close>. A value of the model is \<^verbatim>\<open>null\<close>, \<^verbatim>\<open>undefined\<close> (what an array read
  outside the array yields), or a number: \<^verbatim>\<open>NaN\<close>, an infinity, or a finite number.
  Finite numbers are exact rationals: the rounding of IEEE doubles is not modelled, and
  neither is the sign of zero.
\<close>

datatype jsval = Null | Undefined | NaN | NegInf | PosInf | Num rat

datatype error = TypeError

text \<open>Conversion of an operand of an arithmetic operator to a number.\<close>

fun ToNumber :: "jsval \<Rightarrow> jsval" where
  "ToNumber Null = Num 0"
| "ToNumber Undefined = NaN"
| "ToNumber v = v"

fun num_add :: "jsval \<Rightarrow> jsval \<Rightarrow> jsval" where
  "num_add (Num a) (Num b) = Num (a + b)"
| "num_add PosInf NegInf = NaN"
| "num_add NegInf PosInf = NaN"
| "num_add PosInf (Num b) = PosInf"
| "num_add (Num a) PosInf = PosInf"
| "num_add PosInf PosInf = PosInf"
| "num_add NegInf (Num b) = NegInf"
| "num_add (Num a) NegInf = NegInf"
| "num_add NegInf NegInf = NegInf"
| "num_add _ _ = NaN"

fun num_neg :: "jsval \<Rightarrow> jsval" where
  "num_neg (Num a) = Num (- a)"
| "num_neg PosInf = NegInf"
| "num_neg NegInf = PosInf"
| "num_neg _ = NaN"

fun num_div :: "jsval \<Rightarrow> jsval \<Rightarrow> jsval" where
  "num_div (Num a) (Num b) =
     (if b = 0 then (if a = 0 then NaN else if 0 < a then PosInf else NegInf)
      else Num (a / b))"
| "num_div PosInf (Num b) = (if 0 \<le> b then PosInf else NegInf)"
| "num_div NegInf (Num b) = (if 0 \<le> b then NegInf else PosInf)"
| "num_div (Num a) PosInf = Num 0"
| "num_div (Num a) NegInf = Num 0"
| "num_div _ _ = NaN"

fun num_lt :: "jsval \<Rightarrow> jsval \<Rightarrow> bool" where
  "num_lt (Num a) (Num b) = (a < b)"
| "num_lt NegInf (Num b) = True"
| "num_lt NegInf PosInf = True"
| "num_lt (Num a) PosInf = True"
| "num_lt _ _ = False"

text \<open>The operators \<^verbatim>\<open>+\<close>, \<^verbatim>\<open>-\<close>, \<^verbatim>\<open>/\<close> and \<^verbatim>\<open><\<close> on the values above.\<close>

definition js_add :: "jsval \<Rightarrow> jsval \<Rightarrow> jsval" where
  "js_add a b = num_add (ToNumber a) (ToNumber b)"

definition js_sub :: "jsval \<Rightarrow> jsval \<Rightarrow> jsval" where
  "js_sub a b = num_add (ToNumber a) (num_neg (ToNumber b))"

definition js_div :: "jsval \<Rightarrow> jsval \<Rightarrow> jsval" where
  "js_div a b = num_div (ToNumber a) (ToNumber b)"

definition js_lt :: "jsval \<Rightarrow> jsval \<Rightarrow> bool" where
  "js_lt a b = num_lt (ToNumber a) (ToNumber b)"

text \<open>\<^verbatim>\<open>a === b\<close>: \<^verbatim>\<open>NaN\<close> is not equal to itself.\<close>

definition js_strict_eq :: "jsval \<Rightarrow> jsval \<Rightarrow> bool" where
  "js_strict_eq a b = (a \<noteq> NaN \<and> a = b)"

text \<open>Truthiness, as the operator \<^verbatim>\<open>||\<close> tests it.\<close>

definition truthy :: "jsval \<Rightarrow> bool" where
  "truthy v = (v \<noteq> Null \<and> v \<noteq> Undefined \<and> v \<noteq> NaN \<and> v \<noteq> Num 0)"

definition Math_abs :: "jsval \<Rightarrow> jsval" where
  "Math_abs v = (case ToNumber v of Num a \<Rightarrow> Num \<bar>a\<bar> | NegInf \<Rightarrow> PosInf | w \<Rightarrow> w)"

definition num_max :: "jsval \<Rightarrow> jsval \<Rightarrow> jsval" where
  "num_max a b = (if a = NaN \<or> b = NaN then NaN else if num_lt a b then b else a)"

text \<open>\<^verbatim>\<open>Math.max(...xs)\<close>: minus infinity for no argument, \<^verbatim>\<open>NaN\<close> as soon as one
  argument is \<^verbatim>\<open>NaN\<close>.\<close>

definition Math_max :: "jsval list \<Rightarrow> jsval" where
  "Math_max xs = foldl num_max NegInf (map ToNumber xs)"

text \<open>\<^verbatim>\<open>xs[i]\<close>: a read outside the array yields \<^verbatim>\<open>undefined\<close>.\<close>

definition js_index :: "jsval list \<Rightarrow> nat \<Rightarrow> jsval" where
  "js_index xs i = (if i < length xs then xs ! i else Undefined)"

text \<open>\<^verbatim>\<open>xs.indexOf(v)\<close>: the first index holding \<^verbatim>\<open>v\<close>; \<open>None\<close> stands for -1.\<close>

fun indexOf :: "jsval list \<Rightarrow> jsval \<Rightarrow> nat option" where
  "indexOf [] v = None"
| "indexOf (x # xs) v =
     (if js_strict_eq x v then Some 0 else map_option Suc (indexOf xs v))"

text \<open>\<^verbatim>\<open>xs.includes(v)\<close> compares by SameValueZero, under which \<^verbatim>\<open>NaN\<close> equals itself.\<close>

definition array_includes :: "jsval list \<Rightarrow> jsval \<Rightarrow> bool" where
  "array_includes xs v = (v \<in> set xs)"

text \<open>\<^verbatim>\<open>xs.filter((_, index) => index !== i)\<close>\<close>

definition remove_index :: "nat \<Rightarrow> 'a list \<Rightarrow> 'a list" where
  "remove_index i xs = map snd (filter (\<lambda>(index, _). index \<noteq> i) (enumerate 0 xs))"

text \<open>
  \<^verbatim>\<open>xs.sort(cmp)\<close>. The sort of an array is stable, and a comparator result of at most 0
  keeps the first argument in front; for a consistent comparator the outcome is fixed by
  these two facts, and insertion from the right produces it.
\<close>

fun insert_by :: "('a \<Rightarrow> 'a \<Rightarrow> int) \<Rightarrow> 'a \<Rightarrow> 'a list \<Rightarrow> 'a list" where
  "insert_by cmp x [] = [x]"
| "insert_by cmp x (y # ys) =
     (if cmp x y \<le> 0 then x # y # ys else y # insert_by cmp x ys)"

definition js_sort :: "('a \<Rightarrow> 'a \<Rightarrow> int) \<Rightarrow> 'a list \<Rightarrow> 'a list" where
  "js_sort cmp xs = foldr (insert_by cmp) xs []"

section \<open>Payout table\<close>

definition valueToGil :: "(rat \<times> rat) list" where
  "valueToGil =
    [(6, 10000), (7, 36), (8, 720), (9, 360), (10, 80), (11, 252), (12, 108),
     (13, 72), (14, 54), (15, 180), (16, 72), (17, 180), (18, 119), (19, 36),
     (20, 306), (21, 1080), (22, 144), (23, 1800), (24, 3600)]"

text \<open>\<^verbatim>\<open>valueToGil[total]\<close>: the property named by the number, \<^verbatim>\<open>undefined\<close> when the
  table has no such key.\<close>

definition valueToGil_at :: "jsval \<Rightarrow> jsval" where
  "valueToGil_at tot =
     (case tot of
        Num r \<Rightarrow> (case map_of valueToGil r of Some v \<Rightarrow> Num v | None \<Rightarrow> Undefined)
      | _ \<Rightarrow> Undefined)"

text \<open>\<^verbatim>\<open>gilValue\<close> of the game logic module: \<^verbatim>\<open>return valueToGil[total] || 0\<close>.\<close>

definition gilValue :: "jsval \<Rightarrow> jsval" where
  "gilValue tot = (let v = valueToGil_at tot in if truthy v then v else Num 0)"

text \<open>\<^verbatim>\<open>gilValue\<close> of \<^verbatim>\<open>cactpot-calc.js\<close>: \<^verbatim>\<open>return valueToGil[total]\<close>.\<close>

definition gilValue_calc :: "jsval \<Rightarrow> jsval" where
  "gilValue_calc tot = valueToGil_at tot"

section \<open>Expected value of a line\<close>

text \<open>
  \<^verbatim>\<open>calculateOptionEV\<close> of the game logic module. The \<^verbatim>\<open>for\<close> loop runs over the indices
  of \<^verbatim>\<open>availableNumbers\<close> in order: the list \<open>evs\<close> holds the value \<^verbatim>\<open>ev\<close> of each
  iteration, \<^verbatim>\<open>evTotal\<close> adds them from the left starting at 0, and
  \<^verbatim>\<open>combinationCount\<close> is the number of iterations. With no available number the
  quotient is 0 / 0, which is \<^verbatim>\<open>NaN\<close>. Each call receives a shorter list of available
  numbers, so the recursion ends.
\<close>

function calculateOptionEV :: "jsval list \<Rightarrow> jsval list \<Rightarrow> jsval" where
  "calculateOptionEV optionValues availableNumbers =
     (let nullCount = length (filter (\<lambda>item. js_strict_eq item Null) optionValues) in
      if nullCount = 0 then
        (let tot = foldl js_add (Num 0) optionValues in gilValue tot)
      else
        (let nullIndex = indexOf optionValues Null;
             evs = map (\<lambda>i.
                     let number = js_index availableNumbers i;
                         newOptionValues =
                           (case nullIndex of None \<Rightarrow> optionValues
                            | Some j \<Rightarrow> optionValues[j := number]);
                         newAvailableNumbers = remove_index i availableNumbers
                     in calculateOptionEV newOptionValues newAvailableNumbers)
                   [0..<length availableNumbers];
             evTotal = foldl js_add (Num 0) evs;
             combinationCount = Num (of_nat (length evs))
         in js_div evTotal combinationCount))"
  by pat_completeness auto
termination
proof (relation "measure (\<lambda>(optionValues, availableNumbers). length availableNumbers)",
    goal_cases)
  case 1
  show ?case by simp
next
  case (2 optionValues availableNumbers nullCount nullIndex i number newOptionValues
      newAvailableNumbers)
  have "length (filter (\<lambda>(index, _). index \<noteq> i) (enumerate n ys))
        = length ys - (if n \<le> i \<and> i < n + length ys then 1 else 0)"
    for n and ys :: "jsval list"
    by (induction ys arbitrary: n) auto
  from this [of 0 availableNumbers] 2
  have "length newAvailableNumbers < length availableNumbers"
    by (simp add: remove_index_def)
  then show ?case by simp
qed

text \<open>The copy of \<^verbatim>\<open>calculateOptionEV\<close> in \<^verbatim>\<open>cactpot-calc.js\<close>, which calls that file's
  \<^verbatim>\<open>gilValue\<close>.\<close>

function calculateOptionEV_calc :: "jsval list \<Rightarrow> jsval list \<Rightarrow> jsval" where
  "calculateOptionEV_calc optionValues availableNumbers =
     (let nullCount = length (filter (\<lambda>item. js_strict_eq item Null) optionValues) in
      if nullCount = 0 then
        (let tot = foldl js_add (Num 0) optionValues in gilValue_calc tot)
      else
        (let nullIndex = indexOf optionValues Null;
             evs = map (\<lambda>i.
                     let number = js_index availableNumbers i;
                         newOptionValues =
                           (case nullIndex of None \<Rightarrow> optionValues
                            | Some j \<Rightarrow> optionValues[j := number]);
                         newAvailableNumbers = remove_index i availableNumbers
                     in calculateOptionEV_calc newOptionValues newAvailableNumbers)
                   [0..<length availableNumbers];
             evTotal = foldl js_add (Num 0) evs;
             combinationCount = Num (of_nat (length evs))
         in js_div evTotal combinationCount))"
  by pat_completeness auto
termination
proof (relation "measure (\<lambda>(optionValues, availableNumbers). length availableNumbers)",
    goal_cases)
  case 1
  show ?case by simp
next
  case (2 optionValues availableNumbers nullCount nullIndex i number newOptionValues
      newAvailableNumbers)
  have "length (filter (\<lambda>(index, _). index \<noteq> i) (enumerate n ys))
        = length ys - (if n \<le> i \<and> i < n + length ys then 1 else 0)"
    for n and ys :: "jsval list"
    by (induction ys arbitrary: n) auto
  from this [of 0 availableNumbers] 2
  have "length newAvailableNumbers < length availableNumbers"
    by (simp add: remove_index_def)
  then show ?case by simp
qed

section \<open>Board analyzer: line ranking\<close>

definition options :: "nat list list" where
  "options =
    [[0, 1, 2], [3, 4, 5], [6, 7, 8],
     [0, 3, 6], [1, 4, 7], [2, 5, 8],
     [0, 4, 8], [2, 4, 6]]"

definition allNumbers :: "jsval list" where
  "allNumbers = [Num 1, Num 2, Num 3, Num 4, Num 5, Num 6, Num 7, Num 8, Num 9]"

record best_options =
  bestOptions :: "nat list list"
  maxEV :: jsval
  optionNames :: "string list"

text \<open>
  The pairs of \<^verbatim>\<open>evs.map((ev, index) => ({ ev, index }))\<close> are pairs of the model. Every
  index is below the length of \<^verbatim>\<open>evs\<close>, which has one entry for each of the eight
  lines, so \<^verbatim>\<open>options[item.index]\<close> reads inside \<^verbatim>\<open>options\<close>.
\<close>

definition calculateBestOptions :: "jsval list \<Rightarrow> best_options" where
  "calculateBestOptions board =
     (let optionValues = map (\<lambda>line. map (\<lambda>i. js_index board i) line) options;
          takenNumbers = filter (\<lambda>element. \<not> js_strict_eq element Null) board;
          availableNumbers = filter (\<lambda>item. \<not> array_includes takenNumbers item) allNumbers;
          evs = map (\<lambda>option. calculateOptionEV option availableNumbers) optionValues;
          maxEV = Math_max evs;
          bestOptions =
            map (\<lambda>(ev, index). options ! index)
              (filter (\<lambda>(ev, index). js_strict_eq ev maxEV) (zip evs [0..<length evs]))
      in \<lparr>bestOptions = bestOptions, maxEV = maxEV,
          optionNames =
            [''Row 1'', ''Row 2'', ''Row 3'',
             ''Column 1'', ''Column 2'', ''Column 3'',
             ''Diagonal (Top-Left)'', ''Diagonal (Top-Right)'']\<rparr>)"

section \<open>Board analyzer: next cell to reveal\<close>

definition cellLines :: "nat \<Rightarrow> nat list option" where
  "cellLines =
     map_of
       [(0, [0, 3, 6]), (1, [0, 4]), (2, [0, 5, 7]),
        (3, [1, 3]), (4, [1, 4, 6, 7]), (5, [1, 5]),
        (6, [2, 3, 7]), (7, [2, 4]), (8, [2, 5, 6])]"

text \<open>
  \<^verbatim>\<open>calculateCellEV\<close>. For an index with no entry in \<^verbatim>\<open>cellLines\<close> the loop
  \<^verbatim>\<open>for (const lineIndex of linesForThisCell)\<close> iterates over \<^verbatim>\<open>undefined\<close> and
  throws a \<^verbatim>\<open>TypeError\<close>. The call of \<^verbatim>\<open>console.log\<close> writes to the console and
  changes no value; it is left out.
\<close>

definition calculateCellEV :: "jsval list \<Rightarrow> nat \<Rightarrow> error + jsval" where
  "calculateCellEV board cellIndex =
     (if \<not> js_strict_eq (js_index board cellIndex) Null then Inr (Num 0)
      else
        let baseline = best_options.maxEV (calculateBestOptions board);
            takenNumbers = filter (\<lambda>element. \<not> js_strict_eq element Null) board;
            availableNumbers = filter (\<lambda>item. \<not> array_includes takenNumbers item) allNumbers;
            lineEVs = map (\<lambda>line.
                        let lineValues = map (\<lambda>cellIdx. js_index board cellIdx) line
                        in calculateOptionEV lineValues availableNumbers) options
        in case cellLines cellIndex of
             None \<Rightarrow> Inl TypeError
           | Some linesForThisCell \<Rightarrow>
               let cellScore =
                     foldl (\<lambda>cellScore lineIndex. js_add cellScore (js_index lineEVs lineIndex))
                       (Num 0) linesForThisCell;
                   expectedGain = js_sub cellScore baseline
               in Inr expectedGain)"

definition getPositionPriority :: "nat \<Rightarrow> int" where
  "getPositionPriority cellIndex =
     (if cellIndex = 4 then 4
      else if cellIndex \<in> set [0, 2, 6, 8] then 3
      else if cellIndex \<in> set [1, 3, 5, 7] then 2
      else 1)"

record best_cells =
  bestCells :: "nat list"
  maxEV :: jsval

text \<open>The loop \<^verbatim>\<open>for (let i = 0; i < 9; i++)\<close> of \<^verbatim>\<open>findBestCellsToReveal\<close>, run over
  the indices it visits; an exception of \<^verbatim>\<open>calculateCellEV\<close> leaves the loop.\<close>

fun cellEVs_loop :: "jsval list \<Rightarrow> nat list \<Rightarrow> error + (nat \<times> jsval) list" where
  "cellEVs_loop board [] = Inr []"
| "cellEVs_loop board (i # rest) =
     (if js_strict_eq (js_index board i) Null then
        (case calculateCellEV board i of
           Inl e \<Rightarrow> Inl e
         | Inr ev \<Rightarrow>
             (case cellEVs_loop board rest of
                Inl e \<Rightarrow> Inl e
              | Inr cellEVs \<Rightarrow> Inr ((i, ev) # cellEVs)))
      else cellEVs_loop board rest)"

text \<open>
  \<^verbatim>\<open>findBestCellsToReveal\<close>. The constant \<^verbatim>\<open>0.01\<close> is the rational 1/100; the calls of
  \<^verbatim>\<open>console.log\<close> are left out.
\<close>

definition findBestCellsToReveal :: "jsval list \<Rightarrow> error + best_cells" where
  "findBestCellsToReveal board =
     (let filledCount = length (filter (\<lambda>element. \<not> js_strict_eq element Null) board) in
      if filledCount \<ge> 4 then Inr \<lparr>bestCells = [], maxEV = Num 0\<rparr>
      else
        case cellEVs_loop board [0..<9] of
          Inl e \<Rightarrow> Inl e
        | Inr cellEVs \<Rightarrow>
            if length cellEVs = 0 then Inr \<lparr>bestCells = [], maxEV = Num 0\<rparr>
            else
              let maxEV = Math_max (map (\<lambda>cell. snd cell) cellEVs);
                  epsilon = Num (1 / 100);
                  bestCells =
                    map (\<lambda>cell. fst cell)
                      (js_sort
                         (\<lambda>a b. getPositionPriority (fst b) - getPositionPriority (fst a))
                         (filter (\<lambda>cell. js_lt (Math_abs (js_sub (snd cell) maxEV)) epsilon)
                            cellEVs))
              in Inr \<lparr>bestCells = bestCells, maxEV = maxEV\<rparr>)"

section \<open>The average over the assignments of a line\<close>

text \<open>
  The reading of the expected value that the specification gives: the unrevealed slots of
  a line, in order, receive distinct available numbers in every possible way; each
  completed line pays the payout of its sum; all assignments weigh the same.
\<close>

text \<open>The number of unrevealed slots of a line.\<close>

definition unrevealed :: "jsval list \<Rightarrow> nat" where
  "unrevealed vs = length (filter (\<lambda>v. v = Null) vs)"



text \<open>The payout of a completed line, as a rational number.\<close>

definition payout :: "jsval list \<Rightarrow> rat" where
  "payout line = (case gilValue (foldl js_add (Num 0) line) of Num r \<Rightarrow> r | _ \<Rightarrow> 0)"



section \<open>The expected value of a line of a board\<close>

text \<open>
  \<^verbatim>\<open>calculateBestOptions\<close> and \<^verbatim>\<open>calculateCellEV\<close> both compute, for each of the eight
  lines, \<^verbatim>\<open>calculateOptionEV\<close> of the values of the line against the numbers of 1 to 9
  that the board does not hold. That value is named here.
\<close>

definition lineEV :: "jsval list \<Rightarrow> nat list \<Rightarrow> jsval" where
  "lineEV board line =
     calculateOptionEV (map (\<lambda>i. js_index board i) line)
       (filter (\<lambda>item. \<not> array_includes (filter (\<lambda>element. \<not> js_strict_eq element Null) board) item)
          allNumbers)"

section \<open>The gain of revealing a cell\<close>

text \<open>
  The reading of the score of a cell that the specification gives: the sum of the expected
  values of every line through the position, minus the \<^verbatim>\<open>maxEV\<close> that
  \<^verbatim>\<open>calculateBestOptions\<close> returns for the board.
\<close>

definition lines_through :: "nat \<Rightarrow> nat list list" where
  "lines_through p = filter (\<lambda>line. p \<in> set line) options"

definition gain :: "jsval list \<Rightarrow> nat \<Rightarrow> jsval" where
  "gain board p =
     js_sub (foldl js_add (Num 0) (map (lineEV board) (lines_through p)))
       (best_options.maxEV (calculateBestOptions board))"

section \<open>Auxiliary facts\<close>

declare calculateOptionEV.simps [simp del]

declare calculateOptionEV_calc.simps [simp del]

lemma remove_index_conv: "remove_index i xs = take i xs @ drop (Suc i) xs"
proof -
  have "map snd (filter (\<lambda>(index, _). index \<noteq> i) (enumerate n xs))
        = (if i < n then xs else take (i - n) xs @ drop (Suc (i - n)) xs)" for n
  proof (induction xs arbitrary: n)
    case Nil
    show ?case by simp
  next
    case (Cons x xs)
    show ?case
    proof (cases "n < i")
      case True
      then have "i - n = Suc (i - Suc n)" by simp
      with Cons.IH [of "Suc n"] True show ?thesis by simp
    next
      case False
      with Cons.IH [of "Suc n"] show ?thesis by auto
    qed
  qed
  from this [of 0] show ?thesis by (simp add: remove_index_def)
qed



lemma indexOf_Null:
  "Null \<in> set vs \<Longrightarrow>
     \<exists>j. indexOf vs Null = Some j \<and> j < length vs \<and> vs ! j = Null \<and> (\<forall>i<j. vs ! i \<noteq> Null)"
proof (induction vs)
  case Nil
  then show ?case by simp
next
  case (Cons v vs)
  show ?case
  proof (cases "v = Null")
    case True
    then show ?thesis by (simp add: js_strict_eq_def)
  next
    case False
    with Cons.prems have "Null \<in> set vs" by simp
    from Cons.IH [OF this] obtain j where
      j: "indexOf vs Null = Some j" "j < length vs" "vs ! j = Null" "\<forall>i<j. vs ! i \<noteq> Null"
      by blast
    have "\<forall>i<Suc j. (v # vs) ! i \<noteq> Null"
      using False j(4) by (auto simp: nth_Cons split: nat.splits)
    with False j show ?thesis by (simp add: js_strict_eq_def)
  qed
qed


lemma calculateOptionEV_no_null:
  "Null \<notin> set vs \<Longrightarrow> calculateOptionEV vs avail = gilValue (foldl js_add (Num 0) vs)"
  by (subst calculateOptionEV.simps) (simp add: js_strict_eq_def filter_empty_conv)

lemma calculateOptionEV_null:
  assumes "indexOf vs Null = Some j" and "Null \<in> set vs"
  shows "calculateOptionEV vs avail =
     js_div
       (foldl js_add (Num 0)
          (map (\<lambda>i. calculateOptionEV (vs[j := avail ! i]) (remove_index i avail))
             [0..<length avail]))
       (Num (of_nat (length avail)))"
proof -
  from assms(2) have ne: "length (filter (\<lambda>item. js_strict_eq item Null) vs) \<noteq> 0"
    by (auto simp: filter_empty_conv js_strict_eq_def)
  have idx: "map (\<lambda>i. calculateOptionEV (vs[j := js_index avail i]) (remove_index i avail))
             [0..<length avail] = map (\<lambda>i. calculateOptionEV (vs[j := avail ! i]) (remove_index i avail))
             [0..<length avail]"
    by (rule map_cong) (simp_all add: js_index_def)
  show ?thesis
    apply (subst calculateOptionEV.simps)
    apply (simp only: Let_def ne if_False assms(1) option.case idx length_map length_upt diff_zero)
    done
qed

section \<open>The payout table\<close>

text \<open>
  Claim C2. For every integer sum, \<^verbatim>\<open>gilValue\<close> of the game logic module returns the
  value of the fixed table for the sums 6 to 24, and 0 for every other sum, 5 and 25
  among them.
\<close>

theorem gilValue_table:
  "gilValue (Num (of_int s)) =
     Num (if s = 6 then 10000 else if s = 7 then 36 else if s = 8 then 720
          else if s = 9 then 360 else if s = 10 then 80 else if s = 11 then 252
          else if s = 12 then 108 else if s = 13 then 72 else if s = 14 then 54
          else if s = 15 then 180 else if s = 16 then 72 else if s = 17 then 180
          else if s = 18 then 119 else if s = 19 then 36 else if s = 20 then 306
          else if s = 21 then 1080 else if s = 22 then 144 else if s = 23 then 1800
          else if s = 24 then 3600 else 0)"
  by (simp add: gilValue_def valueToGil_at_def valueToGil_def truthy_def)

text \<open>
  Claim C9. The copy of \<^verbatim>\<open>gilValue\<close> in \<^verbatim>\<open>cactpot-calc.js\<close> has no default: at the sum
  5 it returns \<^verbatim>\<open>undefined\<close> where the game logic module returns 0, and the two copies
  of \<^verbatim>\<open>calculateOptionEV\<close> differ on the fully revealed line 1, 1, 3.
\<close>

theorem gilValue_copies_differ:
  "gilValue (Num 5) = Num 0 \<and> gilValue_calc (Num 5) = Undefined \<and>
   calculateOptionEV [Num 1, Num 1, Num 3] [] = Num 0 \<and>
   calculateOptionEV_calc [Num 1, Num 1, Num 3] [] = Undefined"
  by (simp add: calculateOptionEV.simps calculateOptionEV_calc.simps gilValue_def
      gilValue_calc_def valueToGil_at_def valueToGil_def truthy_def js_strict_eq_def js_add_def)

section \<open>Fully revealed lines\<close>

text \<open>
  Claim C6. On a fully revealed line, three numbers, \<^verbatim>\<open>calculateOptionEV\<close> returns the
  payout of their sum, whatever the list of available numbers holds.
\<close>

theorem calculateOptionEV_revealed:
  "calculateOptionEV [Num a, Num b, Num c] avail = gilValue (Num (a + b + c))"
  by (simp add: calculateOptionEV_no_null js_add_def)

section \<open>Cells that are already revealed\<close>

text \<open>
  Claim C10. When \<^verbatim>\<open>board[p]\<close> is not \<^verbatim>\<open>null\<close>, \<^verbatim>\<open>calculateCellEV(board, p)\<close> returns 0.
  The test is the first statement of the function, before the baseline and the line
  values are computed.
\<close>

theorem calculateCellEV_revealed:
  "js_index board p \<noteq> Null \<Longrightarrow> calculateCellEV board p = Inr (Num 0)"
  by (simp add: calculateCellEV_def js_strict_eq_def)

theorem calculateCellEV_revealed_witness:
  "js_index [Num 1, Num 2, Null, Null, Num 7, Null, Null, Null, Null] 4 \<noteq> Null \<and>
   calculateCellEV [Num 1, Num 2, Null, Null, Num 7, Null, Null, Null, Null] 4 = Inr (Num 0)"
proof -
  have h: "js_index [Num 1, Num 2, Null, Null, Num 7, Null, Null, Null, Null] 4 \<noteq> Null"
    by (simp add: js_index_def)
  from h calculateCellEV_revealed [OF h] show ?thesis by simp
qed

section \<open>Symmetry in the slots of a line\<close>



section \<open>The expected value is the uniform average\<close>

lemma gilValue_payout: "gilValue (foldl js_add (Num 0) line) = Num (payout line)"
  by (auto simp: payout_def gilValue_def valueToGil_at_def truthy_def Let_def
      split: jsval.splits option.splits)











lemma foldl_js_add_Num:
  "foldl js_add (Num z) (map (\<lambda>i. Num (g i)) xs) = Num (z + sum_list (map g xs))"
  by (induction xs arbitrary: z) (simp_all add: js_add_def add.assoc)



lemma unrevealed_update:
  "j < length vs \<Longrightarrow> vs ! j = Null \<Longrightarrow> a \<noteq> Null \<Longrightarrow>
     unrevealed vs = Suc (unrevealed (vs[j := a]))"
proof (induction vs arbitrary: j)
  case Nil
  then show ?case by simp
next
  case (Cons v vs)
  show ?case
  proof (cases j)
    case 0
    with Cons.prems show ?thesis by (simp add: unrevealed_def)
  next
    case (Suc j')
    with Cons.prems Cons.IH [of j'] show ?thesis by (simp add: unrevealed_def)
  qed
qed







section \<open>The best lines of a board\<close>

lemma calculateOptionEV_Num:
  "unrevealed vs = k \<Longrightarrow> Null \<notin> set avail \<Longrightarrow> k \<le> length avail \<Longrightarrow>
     \<exists>r. calculateOptionEV vs avail = Num r"
proof (induction k arbitrary: vs avail)
  case 0
  then have "Null \<notin> set vs"
    by (auto simp: unrevealed_def filter_empty_conv)
  then show ?case
    by (simp add: calculateOptionEV_no_null gilValue_payout)
next
  case (Suc k)
  from Suc.prems(1) have N: "Null \<in> set vs"
    by (auto simp: unrevealed_def filter_empty_conv dest!: arg_cong [where f = "\<lambda>n. n = 0"])
  from indexOf_Null [OF N] obtain j where
    j: "indexOf vs Null = Some j" "j < length vs" "vs ! j = Null" by blast
  have "\<exists>r. calculateOptionEV (vs[j := avail ! i]) (remove_index i avail) = Num r"
    if i: "i < length avail" for i
  proof (rule Suc.IH)
    from i Suc.prems(2) have a: "avail ! i \<noteq> Null" by (metis nth_mem)
    from unrevealed_update [OF j(2,3) a] Suc.prems(1)
    show "unrevealed (vs[j := avail ! i]) = k" by simp
    have "set (remove_index i avail) \<subseteq> set avail"
      unfolding remove_index_conv using set_take_subset [of i avail] set_drop_subset [of "Suc i" avail]
      by auto
    with Suc.prems(2) show "Null \<notin> set (remove_index i avail)" by blast
    from i Suc.prems(3) show "k \<le> length (remove_index i avail)"
      by (simp add: remove_index_conv)
  qed
  then have "\<forall>i<length avail. \<exists>r. calculateOptionEV (vs[j := avail ! i]) (remove_index i avail) = Num r"
    by blast
  then obtain g where
    g: "\<And>i. i < length avail \<Longrightarrow>
          calculateOptionEV (vs[j := avail ! i]) (remove_index i avail) = Num (g i)"
    by metis
  have maps:
    "map (\<lambda>i. calculateOptionEV (vs[j := avail ! i]) (remove_index i avail)) [0..<length avail]
      = map (\<lambda>i. Num (g i)) [0..<length avail]"
    by (rule map_cong [OF refl]) (simp add: g)
  from Suc.prems(3) have "length avail \<noteq> 0" by auto
  then show ?case
    unfolding calculateOptionEV_null [OF j(1) N, of avail] maps foldl_js_add_Num
    by (simp add: js_div_def)
qed

lemma unrevealed_line_le:
  assumes "distinct line"
  shows "unrevealed (map (\<lambda>i. js_index board i) line) \<le> unrevealed board"
proof -
  let ?ns = "filter (\<lambda>i. js_index board i = Null) line"
  have "unrevealed (map (\<lambda>i. js_index board i) line) = length ?ns"
    by (simp add: unrevealed_def filter_map comp_def)
  also have "\<dots> = card (set ?ns)"
    by (rule distinct_card [symmetric]) (rule distinct_filter [OF assms])
  also have "set ?ns \<subseteq> {i. i < length board \<and> board ! i = Null}"
    by (auto simp: js_index_def split: if_splits)
  then have "card (set ?ns) \<le> card {i. i < length board \<and> board ! i = Null}"
    by (intro card_mono) auto
  also have "\<dots> = unrevealed board"
    by (simp add: unrevealed_def length_filter_conv_card)
  finally show ?thesis .
qed

lemma taken_length:
  "length (filter (\<lambda>element. \<not> js_strict_eq element Null) board) + unrevealed board = length board"
proof -
  have "(\<lambda>element. \<not> js_strict_eq element Null) = (\<lambda>v. v \<noteq> Null)"
    by (auto simp: js_strict_eq_def)
  then show ?thesis
    using sum_length_filter_compl [of "\<lambda>v. v = Null" board]
    by (simp add: unrevealed_def)
qed

lemma available_length:
  "9 \<le> length (filter (\<lambda>item. \<not> array_includes taken item) allNumbers) + length taken"
proof -
  have d: "distinct allNumbers" and l: "length allNumbers = 9"
    by (simp_all add: allNumbers_def)
  have "length (filter (\<lambda>item. \<not> array_includes taken item) allNumbers)
      = card (set allNumbers - set taken)"
    using d by (simp add: distinct_card [symmetric] array_includes_def set_diff_eq)
  moreover have "card (set allNumbers) - card (set taken) \<le> card (set allNumbers - set taken)"
    by (rule diff_card_le_card_Diff) simp
  moreover have "card (set allNumbers) = 9" using d l by (simp add: distinct_card)
  moreover have "card (set taken) \<le> length taken" by (rule card_length)
  ultimately show ?thesis by linarith
qed

lemma lineEV_Num:
  assumes "length board \<le> 9" "distinct line"
  shows "\<exists>r. lineEV board line = Num r"
  unfolding lineEV_def
proof (rule calculateOptionEV_Num [OF refl])
  let ?taken = "filter (\<lambda>element. \<not> js_strict_eq element Null) board"
  let ?avail = "filter (\<lambda>item. \<not> array_includes ?taken item) allNumbers"
  show "Null \<notin> set ?avail" by (auto simp: allNumbers_def)
  from unrevealed_line_le [OF assms(2), of board] taken_length [of board]
    available_length [of ?taken] assms(1)
  show "unrevealed (map (\<lambda>i. js_index board i) line) \<le> length ?avail"
    by linarith
qed


lemma foldl_num_max_Num: "foldl num_max (Num a) (map Num rs) = Num (fold max rs a)"
  by (induction rs arbitrary: a) (simp_all add: num_max_def max_def)

lemma Math_max_Num: "Math_max (map Num (r # rs)) = Num (Max (set (r # rs)))"
proof -
  have "map ToNumber (map Num (r # rs)) = Num r # map Num rs"
    by simp
  then have "Math_max (map Num (r # rs)) = foldl num_max (Num r) (map Num rs)"
    by (simp add: Math_max_def num_max_def comp_def)
  then show ?thesis
    by (simp only: foldl_num_max_Num Max.set_eq_fold)
qed

lemma filter_zip_index:
  "map (\<lambda>(ev, index). xs ! index)
     (filter (\<lambda>(ev, index). P ev) (zip (map f xs) [0..<length xs]))
   = filter (\<lambda>x. P (f x)) xs"
proof (induction xs rule: rev_induct)
  case Nil
  show ?case by simp
next
  case (snoc x xs)
  have "map (\<lambda>(ev, index). (xs @ [x]) ! index)
          (filter (\<lambda>(ev, index). P ev) (zip (map f xs) [0..<length xs]))
      = map (\<lambda>(ev, index). xs ! index)
          (filter (\<lambda>(ev, index). P ev) (zip (map f xs) [0..<length xs]))"
    by (rule map_cong [OF refl]) (auto simp: nth_append dest!: set_zip_rightD)
  with snoc show ?case by simp
qed

lemma evs_lineEV:
  "map (\<lambda>option. calculateOptionEV option
          (filter (\<lambda>item. \<not> array_includes
              (filter (\<lambda>element. \<not> js_strict_eq element Null) board) item) allNumbers))
     (map (\<lambda>line. map (\<lambda>i. js_index board i) line) options)
   = map (lineEV board) options"
  by (simp add: lineEV_def comp_def)

lemma calculateBestOptions_lineEV:
  "calculateBestOptions board =
     \<lparr>bestOptions =
        filter (\<lambda>line. js_strict_eq (lineEV board line) (Math_max (map (lineEV board) options)))
          options,
      maxEV = Math_max (map (lineEV board) options),
      optionNames =
        [''Row 1'', ''Row 2'', ''Row 3'', ''Column 1'', ''Column 2'', ''Column 3'',
         ''Diagonal (Top-Left)'', ''Diagonal (Top-Right)'']\<rparr>"
  unfolding calculateBestOptions_def Let_def evs_lineEV
  using filter_zip_index [of options "\<lambda>ev. js_strict_eq ev (Math_max (map (lineEV board) options))"
      "lineEV board"]
  by simp

lemma options_distinct: "line \<in> set options \<Longrightarrow> distinct line"
  by (auto simp: options_def)

lemma lineEVs_Num:
  assumes "length board \<le> 9"
  shows "\<exists>e. \<forall>line\<in>set options. lineEV board line = Num (e line)"
proof -
  have "\<forall>line\<in>set options. \<exists>r. lineEV board line = Num r"
    using lineEV_Num [OF assms options_distinct] by blast
  then show ?thesis by (rule bchoice)
qed

lemma maxEV_Num:
  assumes e: "\<forall>line\<in>set options. lineEV board line = Num (e line)"
  shows "Math_max (map (lineEV board) options) = Num (Max (e ` set options))"
proof -
  have "map (lineEV board) options = map Num (map e options)"
    using e by simp
  moreover have "map e options = e (hd options) # map e (tl options)"
    by (simp add: options_def)
  ultimately have "Math_max (map (lineEV board) options)
      = Num (Max (set (e (hd options) # map e (tl options))))"
    by (simp only: Math_max_Num)
  also have "set (e (hd options) # map e (tl options)) = e ` set options"
    by (simp add: options_def)
  finally show ?thesis .
qed




section \<open>Four or more revealed cells\<close>

text \<open>
  Claim C5. When four or more cells of the board are not \<^verbatim>\<open>null\<close>,
  \<^verbatim>\<open>findBestCellsToReveal\<close> returns no cell. On the board 1, 2, 3, 4 followed by five
  unrevealed cells it returns no cell, and \<^verbatim>\<open>calculateBestOptions\<close> returns the single
  line 0, 1, 2, named Row 1, with \<^verbatim>\<open>maxEV\<close> 10000.
\<close>

theorem findBestCellsToReveal_four_revealed:
  "(4 \<le> length (filter (\<lambda>element. element \<noteq> Null) board) \<longrightarrow>
      findBestCellsToReveal board = Inr \<lparr>bestCells = [], maxEV = Num 0\<rparr>) \<and>
   findBestCellsToReveal [Num 1, Num 2, Num 3, Num 4, Null, Null, Null, Null, Null]
     = Inr \<lparr>bestCells = [], maxEV = Num 0\<rparr> \<and>
   bestOptions (calculateBestOptions [Num 1, Num 2, Num 3, Num 4, Null, Null, Null, Null, Null])
     = [[0, 1, 2]] \<and>
   best_options.maxEV
     (calculateBestOptions [Num 1, Num 2, Num 3, Num 4, Null, Null, Null, Null, Null])
     = Num 10000 \<and>
   optionNames (calculateBestOptions [Num 1, Num 2, Num 3, Num 4, Null, Null, Null, Null, Null]) ! 0
     = ''Row 1''"
proof -
  have eq: "(\<lambda>element. \<not> js_strict_eq element Null) = (\<lambda>element. element \<noteq> Null)"
    by (auto simp: js_strict_eq_def)
  have gen: "findBestCellsToReveal b = Inr \<lparr>bestCells = [], maxEV = Num 0\<rparr>"
    if "4 \<le> length (filter (\<lambda>element. element \<noteq> Null) b)" for b
    using that by (simp add: findBestCellsToReveal_def eq)
  have b: "calculateBestOptions [Num 1, Num 2, Num 3, Num 4, Null, Null, Null, Null, Null]
      = \<lparr>bestOptions = [[0, 1, 2]], maxEV = Num 10000,
          optionNames =
            [''Row 1'', ''Row 2'', ''Row 3'', ''Column 1'', ''Column 2'', ''Column 3'',
             ''Diagonal (Top-Left)'', ''Diagonal (Top-Right)'']\<rparr>"
    by code_simp
  show ?thesis
    using gen [of board] gen [of "[Num 1, Num 2, Num 3, Num 4, Null, Null, Null, Null, Null]"]
    by (simp add: b)
qed

theorem findBestCellsToReveal_four_revealed_witness:
  "4 \<le> length (filter (\<lambda>element. element \<noteq> Null)
          [Num 5, Null, Num 6, Num 7, Null, Num 8, Null, Null, Null]) \<and>
   findBestCellsToReveal [Num 5, Null, Num 6, Num 7, Null, Num 8, Null, Null, Null]
     = Inr \<lparr>bestCells = [], maxEV = Num 0\<rparr>"
  using findBestCellsToReveal_four_revealed
    [of "[Num 5, Null, Num 6, Num 7, Null, Num 8, Null, Null, Null]"]
  by simp

section \<open>The best cells to reveal\<close>

lemma below_nine:
  "p < 9 \<Longrightarrow> p = 0 \<or> p = 1 \<or> p = 2 \<or> p = 3 \<or> p = 4 \<or> p = 5 \<or> p = 6 \<or> p = 7 \<or> p = (8::nat)"
  by arith

lemma cellLines_geometry:
  assumes "p < 9"
  shows "\<exists>ls. cellLines p = Some ls \<and> map (\<lambda>i. options ! i) ls = lines_through p \<and>
           (\<forall>i\<in>set ls. i < length options)"
  using below_nine [OF assms]
  by (elim disjE) (simp_all add: cellLines_def options_def lines_through_def)

lemma priority_lines:
  assumes "p < 9"
  shows "getPositionPriority p = int (length (lines_through p))"
  using below_nine [OF assms]
  by (elim disjE) (simp_all add: getPositionPriority_def options_def lines_through_def)


lemma cellScore_fold:
  assumes "\<forall>i\<in>set ls. i < length xs"
  shows "foldl (\<lambda>cellScore lineIndex. js_add cellScore (js_index (map f xs) lineIndex)) z ls
       = foldl js_add z (map f (map (\<lambda>i. xs ! i) ls))"
  using assms by (induction ls arbitrary: z) (simp_all add: js_index_def)

lemma calculateCellEV_gain:
  assumes "p < 9" and "js_index board p = Null"
  shows "calculateCellEV board p = Inr (gain board p)"
proof -
  from cellLines_geometry [OF assms(1)] obtain ls where
    ls: "cellLines p = Some ls" "map (\<lambda>i. options ! i) ls = lines_through p"
      "\<forall>i\<in>set ls. i < length options"
    by blast
  have "js_strict_eq (js_index board p) Null"
    by (simp add: assms(2) js_strict_eq_def)
  then show ?thesis
    unfolding calculateCellEV_def Let_def
    by (simp add: ls(1) cellScore_fold [OF ls(3)] ls(2) gain_def lineEV_def [abs_def])
qed

lemma cellEVs_loop_gain:
  assumes "\<forall>p\<in>set ps. p < 9"
  shows "cellEVs_loop board ps
       = Inr (map (\<lambda>p. (p, gain board p)) (filter (\<lambda>p. js_index board p = Null) ps))"
  using assms
proof (induction ps)
  case Nil
  show ?case by simp
next
  case (Cons p ps)
  then have IH: "cellEVs_loop board ps
       = Inr (map (\<lambda>p. (p, gain board p)) (filter (\<lambda>p. js_index board p = Null) ps))"
    and p: "p < 9" by simp_all
  show ?case
  proof (cases "js_index board p = Null")
    case True
    with calculateCellEV_gain [OF p True] IH show ?thesis
      by (simp add: js_strict_eq_def)
  next
    case False
    with IH show ?thesis by (simp add: js_strict_eq_def)
  qed
qed

lemma foldl_js_add_lineEV_Num:
  assumes "\<forall>line\<in>set ls. lineEV board line = Num (e line)"
  shows "foldl js_add (Num 0) (map (lineEV board) ls) = Num (sum_list (map e ls))"
proof -
  have "map (lineEV board) ls = map (\<lambda>line. Num (e line)) ls"
    using assms by simp
  then show ?thesis by (simp only: foldl_js_add_Num) simp
qed

lemma gain_Num:
  assumes "length board \<le> 9"
  shows "\<exists>g. gain board p = Num g"
proof -
  from lineEVs_Num [OF assms] obtain e where
    e: "\<forall>line\<in>set options. lineEV board line = Num (e line)" by blast
  then have "\<forall>line\<in>set (lines_through p). lineEV board line = Num (e line)"
    by (simp add: lines_through_def)
  from foldl_js_add_lineEV_Num [OF this] maxEV_Num [OF e] show ?thesis
    by (simp add: gain_def calculateBestOptions_lineEV js_sub_def)
qed

lemma insert_by_insort_key:
  fixes k :: "'a \<Rightarrow> int"
  shows "insert_by (\<lambda>a b. k b - k a) x ys = insort_key (\<lambda>c. - k c) x ys"
  by (induction ys) simp_all

lemma js_sort_sort_key:
  fixes k :: "'a \<Rightarrow> int"
  shows "js_sort (\<lambda>a b. k b - k a) xs = sort_key (\<lambda>c. - k c) xs"
  by (induction xs) (simp_all add: js_sort_def insert_by_insort_key)

lemma map_fst_insort_key:
  "map fst (insort_key (\<lambda>c. k (fst c)) x xs) = insort_key k (fst x) (map fst xs)"
  by (induction xs) simp_all

lemma map_fst_sort_key:
  "map fst (sort_key (\<lambda>c. k (fst c)) xs) = sort_key k (map fst xs)"
  by (induction xs) (simp_all add: map_fst_insort_key)

lemma near_Num:
  "js_lt (Math_abs (js_sub (Num g) (Num m))) (Num (1 / 100)) \<longleftrightarrow> \<bar>g - m\<bar> < 1 / 100"
  by (simp add: js_lt_def Math_abs_def js_sub_def)

text \<open>
  Claim C4. For every board of nine cells with fewer than four revealed cells,
  \<^verbatim>\<open>findBestCellsToReveal\<close> returns as \<^verbatim>\<open>bestCells\<close> exactly the unrevealed positions whose
  gain is less than 0.01 away from the maximum gain of an unrevealed position; the list is
  ordered by descending position priority, positions of equal priority keep their original
  order, and the priority of a position is the number of lines through it: 4 for the
  centre, 3 for a corner, 2 for an edge.
\<close>

theorem findBestCellsToReveal_near_max:
  assumes len: "length board = 9"
    and few: "length (filter (\<lambda>element. element \<noteq> Null) board) < 4"
  shows "\<exists>cells m g.
     findBestCellsToReveal board = Inr \<lparr>bestCells = cells, maxEV = Num m\<rparr> \<and>
     (\<forall>p<9. gain board p = Num (g p)) \<and>
     (\<forall>p<9. board ! p = Null \<longrightarrow> g p \<le> m) \<and>
     (\<exists>p<9. board ! p = Null \<and> g p = m) \<and>
     set cells = {p. p < 9 \<and> board ! p = Null \<and> \<bar>g p - m\<bar> < 1 / 100} \<and>
     distinct cells \<and>
     sorted_wrt (\<lambda>a b. getPositionPriority b \<le> getPositionPriority a) cells \<and>
     (\<forall>k. filter (\<lambda>p. getPositionPriority p = k) cells
          = filter (\<lambda>p. getPositionPriority p = k \<and> board ! p = Null \<and> \<bar>g p - m\<bar> < 1 / 100)
              [0..<9]) \<and>
     (\<forall>p<9. getPositionPriority p = int (length (lines_through p)))"
proof -
  define cand where "cand = filter (\<lambda>p. js_index board p = Null) [0..<9]"
  have cand_set: "set cand = {p. p < 9 \<and> board ! p = Null}"
    by (auto simp: cand_def js_index_def len)
  have cand_filter: "cand = filter (\<lambda>p. board ! p = Null) [0..<9]"
    unfolding cand_def by (rule filter_cong [OF refl]) (simp add: js_index_def len)
  from len have "length board \<le> 9" by simp
  then have "\<forall>p. \<exists>g. gain board p = Num g" by (simp add: gain_Num)
  then obtain g where g: "\<And>p. gain board p = Num (g p)" by metis
  have loop: "cellEVs_loop board [0..<9] = Inr (map (\<lambda>p. (p, Num (g p))) cand)"
    by (simp add: cellEVs_loop_gain cand_def g)
  have filled: "(\<lambda>element. \<not> js_strict_eq element Null) = (\<lambda>element. element \<noteq> Null)"
    by (auto simp: js_strict_eq_def)
  from taken_length [of board] few len have "0 < unrevealed board"
    by (simp add: filled)
  then have "Null \<in> set board"
    by (auto simp: unrevealed_def filter_empty_conv)
  then obtain p0 where "p0 < 9" "board ! p0 = Null"
    by (auto simp: in_set_conv_nth len)
  then have "p0 \<in> set cand" by (simp add: cand_set)
  then have ne: "cand \<noteq> []" by auto
  then obtain c cs where ccs: "cand = c # cs" by (cases cand) auto
  define m where "m = Max (g ` set cand)"
  have gc: "map g cand = g c # map g cs" by (simp add: ccs)
  have "map (\<lambda>cell. snd cell) (map (\<lambda>p. (p, Num (g p))) cand) = map Num (map g cand)"
    by (simp add: comp_def)
  also have "Math_max \<dots> = Num (Max (set (map g cand)))"
    by (simp only: gc Math_max_Num)
  finally have mx: "Math_max (map (\<lambda>cell. snd cell) (map (\<lambda>p. (p, Num (g p))) cand)) = Num m"
    by (simp add: m_def)
  define near where "near p \<longleftrightarrow> \<bar>g p - m\<bar> < 1 / 100" for p
  have flt: "filter (\<lambda>cell. js_lt (Math_abs (js_sub (snd cell) (Num m))) (Num (1 / 100)))
        (map (\<lambda>p. (p, Num (g p))) cand)
      = map (\<lambda>p. (p, Num (g p))) (filter near cand)"
    by (simp add: filter_map comp_def near_Num near_def [abs_def])
  define cells where "cells = sort_key (\<lambda>p. - getPositionPriority p) (filter near cand)"
  have srt: "map (\<lambda>cell. fst cell)
        (js_sort (\<lambda>a b. getPositionPriority (fst b) - getPositionPriority (fst a))
           (map (\<lambda>p. (p, Num (g p))) (filter near cand)))
      = cells"
    unfolding cells_def
    using js_sort_sort_key [of "\<lambda>cell. getPositionPriority (fst cell)"
        "map (\<lambda>p. (p, Num (g p))) (filter near cand)"]
      map_fst_sort_key [of "\<lambda>p. - getPositionPriority p"
        "map (\<lambda>p. (p, Num (g p))) (filter near cand)"]
    by (simp add: comp_def)
  have res: "findBestCellsToReveal board = Inr \<lparr>bestCells = cells, maxEV = Num m\<rparr>"
    unfolding findBestCellsToReveal_def Let_def filled loop sum.case mx flt srt
    using few ne by simp
  have c2: "\<forall>p<9. gain board p = Num (g p)" by (simp add: g)
  have c3: "\<forall>p<9. board ! p = Null \<longrightarrow> g p \<le> m"
    unfolding m_def by (auto intro!: Max_ge simp: cand_set)
  have "m \<in> g ` set cand"
    unfolding m_def by (rule Max_in) (use ne in auto)
  then have c4: "\<exists>p<9. board ! p = Null \<and> g p = m"
    by (auto simp: cand_set)
  have c5: "set cells = {p. p < 9 \<and> board ! p = Null \<and> \<bar>g p - m\<bar> < 1 / 100}"
    by (auto simp: cells_def cand_set near_def)
  have c6: "distinct cells"
    by (simp add: cells_def cand_def)
  have "sorted (map (\<lambda>p. - getPositionPriority p) cells)"
    unfolding cells_def by (rule sorted_sort_key)
  then have c7: "sorted_wrt (\<lambda>a b. getPositionPriority b \<le> getPositionPriority a) cells"
    by (simp add: sorted_map)
  have c8: "filter (\<lambda>p. getPositionPriority p = k) cells
      = filter (\<lambda>p. getPositionPriority p = k \<and> board ! p = Null \<and> \<bar>g p - m\<bar> < 1 / 100) [0..<9]"
    for k
  proof -
    have "filter (\<lambda>p. - getPositionPriority p = - k) cells
        = filter (\<lambda>p. - getPositionPriority p = - k) (filter near cand)"
      unfolding cells_def by (rule sort_key_stable)
    then show ?thesis
      by (simp add: cand_filter near_def conj_commute conj_left_commute)
  qed
  have c9: "\<forall>p<9. getPositionPriority p = int (length (lines_through p))"
    by (simp add: priority_lines)
  from res c2 c3 c4 c5 c6 c7 c8 c9 show ?thesis by blast
qed


theorem findBestCellsToReveal_near_max_witness:
  "length [Num 1, Num 2, Null, Null, Null, Null, Null, Null, Null] = 9 \<and>
   length (filter (\<lambda>element. element \<noteq> Null) [Num 1, Num 2, Null, Null, Null, Null, Null, Null, Null]) < 4 \<and>
   (\<exists>cells m g.
     findBestCellsToReveal [Num 1, Num 2, Null, Null, Null, Null, Null, Null, Null] = Inr \<lparr>bestCells = cells, maxEV = Num m\<rparr> \<and>
     (\<forall>p<9. gain [Num 1, Num 2, Null, Null, Null, Null, Null, Null, Null] p = Num (g p)) \<and>
     (\<forall>p<9. [Num 1, Num 2, Null, Null, Null, Null, Null, Null, Null] ! p = Null \<longrightarrow> g p \<le> m) \<and>
     (\<exists>p<9. [Num 1, Num 2, Null, Null, Null, Null, Null, Null, Null] ! p = Null \<and> g p = m) \<and>
     set cells = {p. p < 9 \<and> [Num 1, Num 2, Null, Null, Null, Null, Null, Null, Null] ! p = Null \<and> \<bar>g p - m\<bar> < 1 / 100} \<and>
     distinct cells \<and>
     sorted_wrt (\<lambda>a b. getPositionPriority b \<le> getPositionPriority a) cells \<and>
     (\<forall>k. filter (\<lambda>p. getPositionPriority p = k) cells
          = filter (\<lambda>p. getPositionPriority p = k \<and> [Num 1, Num 2, Null, Null, Null, Null, Null, Null, Null] ! p = Null \<and> \<bar>g p - m\<bar> < 1 / 100)
              [0..<9]) \<and>
     (\<forall>p<9. getPositionPriority p = int (length (lines_through p))))"
proof -
  have h1: "length [Num 1, Num 2, Null, Null, Null, Null, Null, Null, Null] = 9" by simp
  have h2: "length (filter (\<lambda>element. element \<noteq> Null) [Num 1, Num 2, Null, Null, Null, Null, Null, Null, Null]) < 4" by simp
  from h1 conjI [OF h2 findBestCellsToReveal_near_max [OF h1 h2]] show ?thesis by (rule conjI)
qed

section \<open>Malformed boards\<close>

text \<open>
  Claim C8 asks that \<^verbatim>\<open>calculateBestOptions\<close> fail with an "invalid board" error on a
  board with a duplicate digit, an out-of-range digit or a wrong length. The function has
  no such check and nothing in it throws for an array: on each of the three boards below
  it returns a result computed from the cells as given.
\<close>

theorem calculateBestOptions_malformed_boards:
  "calculateBestOptions [Num 1, Num 1, Num 3, Num 4, Null, Null, Null, Null, Null]
     = \<lparr>bestOptions = [[6, 7, 8]], maxEV = Num 488,
         optionNames =
           [''Row 1'', ''Row 2'', ''Row 3'', ''Column 1'', ''Column 2'', ''Column 3'',
            ''Diagonal (Top-Left)'', ''Diagonal (Top-Right)'']\<rparr> \<and>
   calculateBestOptions [Num 10, Num 2, Num 3, Num 4, Null, Null, Null, Null, Null]
     = \<lparr>bestOptions = [[0, 4, 8]], maxEV = Num (12737 / 15),
         optionNames =
           [''Row 1'', ''Row 2'', ''Row 3'', ''Column 1'', ''Column 2'', ''Column 3'',
            ''Diagonal (Top-Left)'', ''Diagonal (Top-Right)'']\<rparr> \<and>
   calculateBestOptions [Num 1, Num 2]
     = \<lparr>bestOptions = options, maxEV = Num 0,
         optionNames =
           [''Row 1'', ''Row 2'', ''Row 3'', ''Column 1'', ''Column 2'', ''Column 3'',
            ''Diagonal (Top-Left)'', ''Diagonal (Top-Right)'']\<rparr>"
  by code_simp

text \<open>
  Claim C8, amended. \<^verbatim>\<open>calculateBestOptions\<close> performs no validation. For every board of
  at most nine cells, whatever its cells hold, it returns a finite number as \<^verbatim>\<open>maxEV\<close>
  and a non-empty list of best lines, the lines whose expected value equals \<^verbatim>\<open>maxEV\<close>.
\<close>

theorem calculateBestOptions_no_validation:
  assumes "length board \<le> 9"
  shows "\<exists>m. best_options.maxEV (calculateBestOptions board) = Num m \<and>
      bestOptions (calculateBestOptions board) \<noteq> [] \<and>
      bestOptions (calculateBestOptions board)
        = filter (\<lambda>line. lineEV board line = Num m) options"
proof -
  from lineEVs_Num [OF assms] obtain e where
    e: "\<forall>line\<in>set options. lineEV board line = Num (e line)" by blast
  define m where "m = Max (e ` set options)"
  have mx: "Math_max (map (lineEV board) options) = Num m"
    unfolding m_def by (rule maxEV_Num [OF e])
  have "m \<in> e ` set options"
    unfolding m_def by (rule Max_in) (simp_all add: options_def)
  then obtain l where l: "l \<in> set options" "e l = m" by auto
  have eq: "js_strict_eq v (Num m) \<longleftrightarrow> v = Num m" for v
    by (auto simp: js_strict_eq_def)
  have c1: "best_options.maxEV (calculateBestOptions board) = Num m"
    by (simp add: calculateBestOptions_lineEV mx)
  have c3: "bestOptions (calculateBestOptions board)
      = filter (\<lambda>line. lineEV board line = Num m) options"
    by (simp add: calculateBestOptions_lineEV mx eq)
  from e l have c2: "bestOptions (calculateBestOptions board) \<noteq> []"
    unfolding c3 by (auto simp: filter_empty_conv)
  from c1 c2 c3 show ?thesis by blast
qed

theorem calculateBestOptions_no_validation_witness:
  "length [Num 1, Num 1, Num 3, Num 4, Null, Null, Null, Null, Null] \<le> 9 \<and>
   (\<exists>m. best_options.maxEV
          (calculateBestOptions [Num 1, Num 1, Num 3, Num 4, Null, Null, Null, Null, Null]) = Num m \<and>
      bestOptions (calculateBestOptions [Num 1, Num 1, Num 3, Num 4, Null, Null, Null, Null, Null])
        \<noteq> [] \<and>
      bestOptions (calculateBestOptions [Num 1, Num 1, Num 3, Num 4, Null, Null, Null, Null, Null])
        = filter
            (\<lambda>line. lineEV [Num 1, Num 1, Num 3, Num 4, Null, Null, Null, Null, Null] line = Num m)
            options)"
proof -
  have h: "length [Num 1, Num 1, Num 3, Num 4, Null, Null, Null, Null, Null] \<le> 9" by simp
  from h calculateBestOptions_no_validation [OF h] show ?thesis by (rule conjI)
qed

end
